theory Spec2Isabelle
  imports Main "HOL-Library.Word"
begin

unbundle bit_operations_syntax

section \<open>Capability detection and kernel dispatch of blake3\_dispatch.c\<close>

subsection \<open>Capability sets\<close>

text \<open>
  Modelled from the spec: the enumeration of capability tiers (the C enum declared in
  blake3\_get\_cpu\_features.h) is not among the sources. The spec describes a bitmask-like
  set over the tiers SSE2, SSSE3, SSE41, AVX, AVX2, AVX512-foundation and
  AVX512-vector-length-extension, in that order, with a distinguished Undefined sentinel.
  Each tier is one bit, in the order of the enumeration; the sentinel is a bit above all
  of them.
\<close>

definition SSE2 :: "32 word" where "SSE2 = push_bit 0 1"
definition SSSE3 :: "32 word" where "SSSE3 = push_bit 1 1"
definition SSE41 :: "32 word" where "SSE41 = push_bit 2 1"
definition AVX :: "32 word" where "AVX = push_bit 3 1"
definition AVX2 :: "32 word" where "AVX2 = push_bit 4 1"
definition AVX512F :: "32 word" where "AVX512F = push_bit 5 1"
definition AVX512VL :: "32 word" where "AVX512VL = push_bit 6 1"
definition UNDEFINED :: "32 word" where "UNDEFINED = push_bit 30 1"

subsection \<open>Build configuration, processor and program state\<close>

text \<open>
  The preprocessor symbols the file branches on. \<open>AMD64\<close> stands for
  \<^verbatim>\<open>defined(__amd64__) || defined(_M_X64)\<close>, \<open>WIN32\<close> for \<^verbatim>\<open>defined(_WIN32)\<close> and
  \<open>BLAKE3_USE_NEON\<close> for \<^verbatim>\<open>BLAKE3_USE_NEON == 1\<close>.
\<close>

record build =
  IS_X86 :: bool
  AMD64 :: bool
  WIN32 :: bool
  BLAKE3_NO_AVX512 :: bool
  BLAKE3_NO_AVX2 :: bool
  BLAKE3_NO_SSE41 :: bool
  BLAKE3_NO_SSE2 :: bool
  BLAKE3_USE_NEON :: bool

text \<open>The four registers \<^verbatim>\<open>uint32_t regs[4]\<close> that a CPUID query fills.\<close>

record regs =
  eax :: "32 word"
  ebx :: "32 word"
  ecx :: "32 word"
  edx :: "32 word"

text \<open>
  The processor as the three static query functions see it: \<^verbatim>\<open>cpuid(out, id)\<close>,
  \<^verbatim>\<open>cpuidex(out, id, sid)\<close> and \<^verbatim>\<open>xgetbv()\<close>.
\<close>

record cpu =
  cpuid :: "32 word \<Rightarrow> regs"
  cpuidex :: "32 word \<Rightarrow> 32 word \<Rightarrow> regs"
  xgetbv :: "64 word"

datatype operation = compress_in_place | compress_xof | xof_many | hash_many

datatype tier = portable | sse2 | sse41 | avx2 | avx512 | neon

text \<open>
  What a call does besides computing its result: reads and writes of the cache variable,
  processor queries, and calls of kernels (\<open>Call hash_many avx2\<close> is a call of
  \<^verbatim>\<open>blake3_hash_many_avx2\<close>).
\<close>

datatype event =
  Load
  | Store "32 word"
  | Cpuid "32 word"
  | Cpuidex "32 word" "32 word"
  | Xgetbv
  | Call operation tier

record state =
  g_blake3_cpu_features :: "32 word"
  events :: "event list"

text \<open>The initialiser \<^verbatim>\<open>long g_blake3_cpu_features = UNDEFINED;\<close> at program start.\<close>

definition initial_state :: state where
  "initial_state = \<lparr>g_blake3_cpu_features = UNDEFINED, events = []\<rparr>"

definition emit :: "event list \<Rightarrow> state \<Rightarrow> state" where
  "emit es s = s\<lparr>events := events s @ es\<rparr>"

subsection \<open>The capability probe and its cache\<close>

text \<open>
  The else-branch of \<^verbatim>\<open>blake3_get_cpu_features\<close> (from \<^verbatim>\<open>features = 0\<close> to the last
  AVX512 test): the feature bits it computes and the processor queries it issues, in
  order. \<^verbatim>\<open>max_id\<close> is a \<^verbatim>\<open>const int\<close>, so the leaf-0 value is read as signed.
\<close>

definition cpu_probe :: "build \<Rightarrow> cpu \<Rightarrow> 32 word \<times> event list" where
  "cpu_probe b h =
    (let features = 0;
         r0 = cpuid h 0;
         max_id = sint (eax r0);
         r1 = cpuid h 1;
         qs = [Cpuid 0, Cpuid 1];
         features = (if AMD64 b then features OR SSE2
                     else if edx r1 AND push_bit 26 1 \<noteq> 0 then features OR SSE2
                     else features);
         features = (if ecx r1 AND push_bit 9 1 \<noteq> 0 then features OR SSSE3 else features);
         features = (if ecx r1 AND push_bit 19 1 \<noteq> 0 then features OR SSE41 else features)
     in
       if ecx r1 AND push_bit 27 1 \<noteq> 0 then
         (let mask = xgetbv h;
              qs = qs @ [Xgetbv]
          in
            if mask AND 6 = 6 then
              (let features = (if ecx r1 AND push_bit 28 1 \<noteq> 0 then features OR AVX
                               else features)
               in
                 if 7 \<le> max_id then
                   (let r7 = cpuidex h 7 0;
                        qs = qs @ [Cpuidex 7 0];
                        features = (if ebx r7 AND push_bit 5 1 \<noteq> 0 then features OR AVX2
                                    else features)
                    in
                      if mask AND 224 = 224 then
                        (let features = (if ebx r7 AND push_bit 31 1 \<noteq> 0
                                         then features OR AVX512VL else features);
                             features = (if ebx r7 AND push_bit 16 1 \<noteq> 0
                                         then features OR AVX512F else features)
                         in (features, qs))
                      else (features, qs))
                 else (features, qs))
            else (features, qs))
       else (features, qs))"

text \<open>
  \<^verbatim>\<open>blake3_get_cpu_features\<close>, as its \<^verbatim>\<open>_MSC_VER\<close> branch has it: an ordinary load of
  \<^verbatim>\<open>g_blake3_cpu_features\<close> into \<^verbatim>\<open>long features\<close>, the test against \<^verbatim>\<open>UNDEFINED\<close>, and
  after the probe an ordinary store to the same variable. The other branch is meant to do
  the same through \<^verbatim>\<open>ATOMIC_LOAD\<close> and \<^verbatim>\<open>ATOMIC_STORE\<close>, but as written it does not
  compile: it loads a variable \<^verbatim>\<open>g_cpu_features\<close> that the file does not declare, and
  \<^verbatim>\<open>ATOMIC_STORE(&g_blake3_cpu_features, ...)\<close> expands to an assignment to an address. The
  model follows the \<^verbatim>\<open>_MSC_VER\<close> branch for every build. The function is only defined
  under \<^verbatim>\<open>IS_X86\<close>, and only called there.
\<close>

definition blake3_get_cpu_features :: "build \<Rightarrow> cpu \<Rightarrow> state \<Rightarrow> 32 word \<times> state" where
  "blake3_get_cpu_features b h s =
    (let features = g_blake3_cpu_features s;
         s = emit [Load] s
     in
       if features \<noteq> UNDEFINED then (features, s)
       else
         (let p = cpu_probe b h;
              features = fst p;
              s = emit (snd p) s;
              s = emit [Store features] (s\<lparr>g_blake3_cpu_features := features\<rparr>)
          in (features, s)))"

subsection \<open>Kernels\<close>

text \<open>
  The kernels are external to the file; every tier offers the same signature per operation.
  They are parameters of the model: \<open>compress_in_place_k K avx512\<close> stands for
  \<^verbatim>\<open>blake3_compress_in_place_avx512\<close>, and so on. A chaining value is \<^verbatim>\<open>uint32_t cv[8]\<close>,
  a block \<^verbatim>\<open>uint8_t block[BLAKE3_BLOCK_LEN]\<close>. A byte buffer is a map from byte offsets
  to bytes; an extended-output kernel writes the 64 bytes \<^verbatim>\<open>out[0..63]\<close>, so of its result
  only the offsets below 64 are read.
\<close>

type_synonym buffer = "nat \<Rightarrow> 8 word"

record kernels =
  compress_in_place_k ::
    "tier \<Rightarrow> 32 word list \<Rightarrow> 8 word list \<Rightarrow> 8 word \<Rightarrow> 64 word \<Rightarrow> 8 word \<Rightarrow> 32 word list"
  compress_xof_k ::
    "tier \<Rightarrow> 32 word list \<Rightarrow> 8 word list \<Rightarrow> 8 word \<Rightarrow> 64 word \<Rightarrow> 8 word \<Rightarrow> buffer"
  hash_many_k ::
    "tier \<Rightarrow> 8 word list list \<Rightarrow> nat \<Rightarrow> nat \<Rightarrow> 32 word list \<Rightarrow> 64 word \<Rightarrow> bool \<Rightarrow>
     8 word \<Rightarrow> 8 word \<Rightarrow> 8 word \<Rightarrow> buffer \<Rightarrow> buffer"

text \<open>Writing a 64-byte block \<open>blk\<close> at \<^verbatim>\<open>out + off\<close>.\<close>

definition write64 :: "buffer \<Rightarrow> nat \<Rightarrow> buffer \<Rightarrow> buffer" where
  "write64 out off blk = (\<lambda>a. if off \<le> a \<and> a < off + 64 then blk (a - off) else out a)"

text \<open>
  Modelled from the spec: the kernel \<^verbatim>\<open>blake3_xof_many_avx512\<close> is not among the sources.
  The spec describes multi-block extended output as N sequential 64-byte output blocks,
  one per counter value counter..counter+N-1, and every tier's kernels as drop-in
  substitutes of one another with identical signatures. So block \<open>i\<close> of this kernel is
  the extended output of the AVX512 single-block kernel at counter \<open>counter + i\<close>, at byte
  offset \<open>64 * i\<close>.
\<close>

definition blake3_xof_many_avx512 ::
  "kernels \<Rightarrow> 32 word list \<Rightarrow> 8 word list \<Rightarrow> 8 word \<Rightarrow> 64 word \<Rightarrow> 8 word \<Rightarrow> buffer \<Rightarrow> nat
   \<Rightarrow> buffer" where
  "blake3_xof_many_avx512 K cv block block_len counter flags out outblocks =
    (\<lambda>a. if a < 64 * outblocks
          then compress_xof_k K avx512 cv block block_len (counter + of_nat (a div 64)) flags
                 (a mod 64)
          else out a)"

subsection \<open>The operations\<close>

definition blake3_compress_in_place ::
  "build \<Rightarrow> cpu \<Rightarrow> kernels \<Rightarrow> 32 word list \<Rightarrow> 8 word list \<Rightarrow> 8 word \<Rightarrow> 64 word \<Rightarrow> 8 word
   \<Rightarrow> state \<Rightarrow> 32 word list \<times> state" where
  "blake3_compress_in_place b h K cv block block_len counter flags s =
    (if IS_X86 b then
       (let r = blake3_get_cpu_features b h s;
            features = fst r;
            s = snd r
        in
          if \<not> BLAKE3_NO_AVX512 b \<and> features AND AVX512VL \<noteq> 0 then
            (compress_in_place_k K avx512 cv block block_len counter flags,
             emit [Call compress_in_place avx512] s)
          else if \<not> BLAKE3_NO_SSE41 b \<and> features AND SSE41 \<noteq> 0 then
            (compress_in_place_k K sse41 cv block block_len counter flags,
             emit [Call compress_in_place sse41] s)
          else if \<not> BLAKE3_NO_SSE2 b \<and> features AND SSE2 \<noteq> 0 then
            (compress_in_place_k K sse2 cv block block_len counter flags,
             emit [Call compress_in_place sse2] s)
          else
            (compress_in_place_k K portable cv block block_len counter flags,
             emit [Call compress_in_place portable] s))
     else
       (compress_in_place_k K portable cv block block_len counter flags,
        emit [Call compress_in_place portable] s))"

definition blake3_compress_xof ::
  "build \<Rightarrow> cpu \<Rightarrow> kernels \<Rightarrow> 32 word list \<Rightarrow> 8 word list \<Rightarrow> 8 word \<Rightarrow> 64 word \<Rightarrow> 8 word
   \<Rightarrow> state \<Rightarrow> buffer \<times> state" where
  "blake3_compress_xof b h K cv block block_len counter flags s =
    (if IS_X86 b then
       (let r = blake3_get_cpu_features b h s;
            features = fst r;
            s = snd r
        in
          if \<not> BLAKE3_NO_AVX512 b \<and> features AND AVX512VL \<noteq> 0 then
            (compress_xof_k K avx512 cv block block_len counter flags,
             emit [Call compress_xof avx512] s)
          else if \<not> BLAKE3_NO_SSE41 b \<and> features AND SSE41 \<noteq> 0 then
            (compress_xof_k K sse41 cv block block_len counter flags,
             emit [Call compress_xof sse41] s)
          else if \<not> BLAKE3_NO_SSE2 b \<and> features AND SSE2 \<noteq> 0 then
            (compress_xof_k K sse2 cv block block_len counter flags,
             emit [Call compress_xof sse2] s)
          else
            (compress_xof_k K portable cv block block_len counter flags,
             emit [Call compress_xof portable] s))
     else
       (compress_xof_k K portable cv block block_len counter flags,
        emit [Call compress_xof portable] s))"

text \<open>
  The loop \<^verbatim>\<open>for (size_t i = 0; i < outblocks; ++i)\<close> of \<^verbatim>\<open>blake3_xof_many\<close>, from the
  index \<open>i\<close> on: each round calls \<^verbatim>\<open>blake3_compress_xof\<close> with \<^verbatim>\<open>counter + i\<close> (64-bit,
  wrapping) and the destination \<^verbatim>\<open>out + 64*i\<close>.
\<close>

function xof_many_loop ::
  "build \<Rightarrow> cpu \<Rightarrow> kernels \<Rightarrow> 32 word list \<Rightarrow> 8 word list \<Rightarrow> 8 word \<Rightarrow> 64 word \<Rightarrow> 8 word
   \<Rightarrow> nat \<Rightarrow> nat \<Rightarrow> buffer \<Rightarrow> state \<Rightarrow> buffer \<times> state" where
  "xof_many_loop b h K cv block block_len counter flags outblocks i out s =
    (if i < outblocks then
       (let r = blake3_compress_xof b h K cv block block_len (counter + of_nat i) flags s
        in xof_many_loop b h K cv block block_len counter flags outblocks (i + 1)
             (write64 out (64 * i) (fst r)) (snd r))
     else (out, s))"
  by pat_completeness auto
termination
  by (relation "measure (\<lambda>(b, h, K, cv, block, block_len, counter, flags, outblocks, i, out, s).
        outblocks - i)") auto

declare xof_many_loop.simps [simp del]

definition blake3_xof_many ::
  "build \<Rightarrow> cpu \<Rightarrow> kernels \<Rightarrow> 32 word list \<Rightarrow> 8 word list \<Rightarrow> 8 word \<Rightarrow> 64 word \<Rightarrow> 8 word
   \<Rightarrow> buffer \<Rightarrow> nat \<Rightarrow> state \<Rightarrow> buffer \<times> state" where
  "blake3_xof_many b h K cv block block_len counter flags out outblocks s =
    (if outblocks = 0 then (out, s)
     else if IS_X86 b then
       (let r = blake3_get_cpu_features b h s;
            features = fst r;
            s = snd r
        in
          if \<not> WIN32 b \<and> \<not> BLAKE3_NO_AVX512 b \<and> features AND AVX512VL \<noteq> 0 then
            (blake3_xof_many_avx512 K cv block block_len counter flags out outblocks,
             emit [Call xof_many avx512] s)
          else xof_many_loop b h K cv block block_len counter flags outblocks 0 out s)
     else xof_many_loop b h K cv block block_len counter flags outblocks 0 out s)"

definition blake3_hash_many ::
  "build \<Rightarrow> cpu \<Rightarrow> kernels \<Rightarrow> 8 word list list \<Rightarrow> nat \<Rightarrow> nat \<Rightarrow> 32 word list \<Rightarrow> 64 word \<Rightarrow> bool
   \<Rightarrow> 8 word \<Rightarrow> 8 word \<Rightarrow> 8 word \<Rightarrow> buffer \<Rightarrow> state \<Rightarrow> buffer \<times> state" where
  "blake3_hash_many b h K inputs num_inputs blocks key counter increment_counter flags
     flags_start flags_end out s =
    (let run = (\<lambda>t. hash_many_k K t inputs num_inputs blocks key counter increment_counter
                      flags flags_start flags_end out);
         rest = (\<lambda>s. if BLAKE3_USE_NEON b then (run neon, emit [Call hash_many neon] s)
                      else (run portable, emit [Call hash_many portable] s))
     in
       if IS_X86 b then
         (let r = blake3_get_cpu_features b h s;
              features = fst r;
              s = snd r
          in
            if \<not> BLAKE3_NO_AVX512 b \<and>
               features AND (AVX512F OR AVX512VL) = (AVX512F OR AVX512VL) then
              (run avx512, emit [Call hash_many avx512] s)
            else if \<not> BLAKE3_NO_AVX2 b \<and> features AND AVX2 \<noteq> 0 then
              (run avx2, emit [Call hash_many avx2] s)
            else if \<not> BLAKE3_NO_SSE41 b \<and> features AND SSE41 \<noteq> 0 then
              (run sse41, emit [Call hash_many sse41] s)
            else if \<not> BLAKE3_NO_SSE2 b \<and> features AND SSE2 \<noteq> 0 then
              (run sse2, emit [Call hash_many sse2] s)
            else rest s)
       else rest s)"

text \<open>\<^verbatim>\<open>blake3_simd_degree\<close> returns a \<^verbatim>\<open>size_t\<close>.\<close>

definition blake3_simd_degree :: "build \<Rightarrow> cpu \<Rightarrow> state \<Rightarrow> nat \<times> state" where
  "blake3_simd_degree b h s =
    (let rest = (\<lambda>s. if BLAKE3_USE_NEON b then (4, s) else (1, s))
     in
       if IS_X86 b then
         (let r = blake3_get_cpu_features b h s;
              features = fst r;
              s = snd r
          in
            if \<not> BLAKE3_NO_AVX512 b \<and>
               features AND (AVX512F OR AVX512VL) = (AVX512F OR AVX512VL) then (16, s)
            else if \<not> BLAKE3_NO_AVX2 b \<and> features AND AVX2 \<noteq> 0 then (8, s)
            else if \<not> BLAKE3_NO_SSE41 b \<and> features AND SSE41 \<noteq> 0 then (4, s)
            else if \<not> BLAKE3_NO_SSE2 b \<and> features AND SSE2 \<noteq> 0 then (4, s)
            else rest s)
       else rest s)"

subsection \<open>The priority chains in the words of the specification\<close>

text \<open>
  The specification words each dispatch decision as a priority chain over the capability
  set and the compile-time toggles: the first tier that is supported and not disabled
  wins. These definitions follow those words; the theorems below compare them with the
  operations above.
\<close>

text \<open>The capability set \<open>f\<close> contains every tier of \<open>c\<close>.\<close>

definition has :: "32 word \<Rightarrow> 32 word \<Rightarrow> bool" where
  "has f c = (f AND c = c)"

text \<open>The toggle of a tier, for the four tiers that have one.\<close>

definition disabled :: "build \<Rightarrow> tier \<Rightarrow> bool" where
  "disabled b t =
    (case t of
       avx512 \<Rightarrow> BLAKE3_NO_AVX512 b
     | avx2 \<Rightarrow> BLAKE3_NO_AVX2 b
     | sse41 \<Rightarrow> BLAKE3_NO_SSE41 b
     | sse2 \<Rightarrow> BLAKE3_NO_SSE2 b
     | neon \<Rightarrow> False
     | portable \<Rightarrow> False)"

text \<open>The first tier of a chain whose condition holds, or else the last resort.\<close>

fun first_available :: "(tier \<times> bool) list \<Rightarrow> tier \<Rightarrow> tier" where
  "first_available [] d = d"
| "first_available ((t, ok) # chain) d = (if ok then t else first_available chain d)"

text \<open>Single-block compression and extended output: AVX512VL, SSE4.1, SSE2, portable.\<close>

definition single_block_chain :: "build \<Rightarrow> 32 word \<Rightarrow> tier" where
  "single_block_chain b f =
    first_available
      [(avx512, \<not> disabled b avx512 \<and> has f AVX512VL),
       (sse41, \<not> disabled b sse41 \<and> has f SSE41),
       (sse2, \<not> disabled b sse2 \<and> has f SSE2)]
      portable"

text \<open>
  Multi-input batch compression: both AVX512F and AVX512VL, then AVX2, SSE4.1, SSE2, the
  NEON kernel if targeted at compile time, portable.
\<close>

definition hash_many_chain :: "build \<Rightarrow> 32 word \<Rightarrow> tier" where
  "hash_many_chain b f =
    first_available
      [(avx512, \<not> disabled b avx512 \<and> has f AVX512F \<and> has f AVX512VL),
       (avx2, \<not> disabled b avx2 \<and> has f AVX2),
       (sse41, \<not> disabled b sse41 \<and> has f SSE41),
       (sse2, \<not> disabled b sse2 \<and> has f SSE2),
       (neon, BLAKE3_USE_NEON b)]
      portable"

text \<open>The number of inputs a tier's batch kernel processes per call.\<close>

definition lane_width :: "tier \<Rightarrow> nat" where
  "lane_width t =
    (case t of avx512 \<Rightarrow> 16 | avx2 \<Rightarrow> 8 | sse41 \<Rightarrow> 4 | sse2 \<Rightarrow> 4 | neon \<Rightarrow> 4 | portable \<Rightarrow> 1)"

text \<open>
  The capability set that a dispatch decision made in state \<open>s\<close> consults, and the state
  after consulting it. Off x86 no probe is defined and no set is consulted: the set is
  empty there.
\<close>

definition capability_set :: "build \<Rightarrow> cpu \<Rightarrow> state \<Rightarrow> 32 word" where
  "capability_set b h s = (if IS_X86 b then fst (blake3_get_cpu_features b h s) else 0)"

definition consulted :: "build \<Rightarrow> cpu \<Rightarrow> state \<Rightarrow> state" where
  "consulted b h s = (if IS_X86 b then snd (blake3_get_cpu_features b h s) else s)"

text \<open>The events of one round of the decomposition loop, once the cache is filled.\<close>

definition round_events :: "build \<Rightarrow> tier \<Rightarrow> event list" where
  "round_events b t = (if IS_X86 b then [Load, Call compress_xof t] else [Call compress_xof t])"

text \<open>The blocks \<open>i\<close> to \<open>n - 1\<close> of tier \<open>t\<close>'s extended output, written over \<open>out\<close>.\<close>

definition xof_blocks ::
  "kernels \<Rightarrow> tier \<Rightarrow> 32 word list \<Rightarrow> 8 word list \<Rightarrow> 8 word \<Rightarrow> 64 word \<Rightarrow> 8 word \<Rightarrow> nat
   \<Rightarrow> nat \<Rightarrow> buffer \<Rightarrow> buffer" where
  "xof_blocks K t cv block block_len counter flags i n out =
    (\<lambda>a. if 64 * i \<le> a \<and> a < 64 * n
          then compress_xof_k K t cv block block_len (counter + of_nat (a div 64)) flags
                 (a mod 64)
          else out a)"

text \<open>The events that a call starting in state \<open>s\<close> and ending in \<open>s'\<close> has emitted.\<close>

definition new_events :: "state \<Rightarrow> state \<Rightarrow> event list" where
  "new_events s s' = drop (length (events s)) (events s')"

text \<open>
  The states a program can get to from a state \<open>s0\<close>: it calls the functions of the file,
  in any order and with any arguments. \<^verbatim>\<open>blake3_get_cpu_features\<close> exists on x86 only.
\<close>

inductive reachable :: "build \<Rightarrow> cpu \<Rightarrow> kernels \<Rightarrow> state \<Rightarrow> state \<Rightarrow> bool"
  for b h K s0 where
  start: "reachable b h K s0 s0"
| get_cpu_features:
    "reachable b h K s0 s \<Longrightarrow> IS_X86 b \<Longrightarrow>
     reachable b h K s0 (snd (blake3_get_cpu_features b h s))"
| compress_in_place:
    "reachable b h K s0 s \<Longrightarrow>
     reachable b h K s0
       (snd (blake3_compress_in_place b h K cv block block_len counter flags s))"
| compress_xof:
    "reachable b h K s0 s \<Longrightarrow>
     reachable b h K s0 (snd (blake3_compress_xof b h K cv block block_len counter flags s))"
| xof_many:
    "reachable b h K s0 s \<Longrightarrow>
     reachable b h K s0
       (snd (blake3_xof_many b h K cv block block_len counter flags out outblocks s))"
| hash_many:
    "reachable b h K s0 s \<Longrightarrow>
     reachable b h K s0
       (snd (blake3_hash_many b h K inputs num_inputs blocks key counter increment_counter
          flags flags_start flags_end out s))"
| simd_degree:
    "reachable b h K s0 s \<Longrightarrow> reachable b h K s0 (snd (blake3_simd_degree b h s))"

text \<open>An event that is not a store to the cache of anything but \<open>p\<close>.\<close>

definition stores_only :: "32 word \<Rightarrow> event \<Rightarrow> bool" where
  "stores_only p e = (case e of Store v \<Rightarrow> v = p | _ \<Rightarrow> True)"

text \<open>
  What the steps from a state \<open>s\<close> to a later state \<open>s'\<close> may do to the cache: they append
  events, every store among them writes the probe's result, and the cache is as it was or
  has gone from the sentinel to the probe's result.
\<close>

definition cache_step :: "build \<Rightarrow> cpu \<Rightarrow> state \<Rightarrow> state \<Rightarrow> bool" where
  "cache_step b h s s' =
    (events s' = events s @ new_events s s' \<and>
     list_all (stores_only (fst (cpu_probe b h))) (new_events s s') \<and>
     (g_blake3_cpu_features s' = g_blake3_cpu_features s \<or>
      g_blake3_cpu_features s = UNDEFINED \<and>
      g_blake3_cpu_features s' = fst (cpu_probe b h)))"

subsection \<open>Example builds, processors and kernels\<close>

text \<open>A 64-bit Windows build with every tier enabled.\<close>

definition msvc_x64 :: build where
  "msvc_x64 =
    \<lparr>IS_X86 = True, AMD64 = True, WIN32 = True, BLAKE3_NO_AVX512 = False,
     BLAKE3_NO_AVX2 = False, BLAKE3_NO_SSE41 = False, BLAKE3_NO_SSE2 = False,
     BLAKE3_USE_NEON = False\<rparr>"

text \<open>
  A processor that reports SSE2, SSSE3, SSE4.1, AVX, AVX2, AVX512F and AVX512VL, under an
  operating system that has enabled the SSE, AVX and AVX512 register state.
\<close>

definition avx512_cpu :: cpu where
  "avx512_cpu =
    \<lparr>cpuid = (\<lambda>id. if id = 0 then \<lparr>eax = 13, ebx = 0, ecx = 0, edx = 0\<rparr>
                    else \<lparr>eax = 0, ebx = 0, ecx = 0x18080200, edx = 0x04000000\<rparr>),
     cpuidex = (\<lambda>id sid. \<lparr>eax = 0, ebx = 0x80010020, ecx = 0, edx = 0\<rparr>),
     xgetbv = 0xE7\<rparr>"

text \<open>
  The same processor under an operating system that has not enabled extended state: the
  OSXSAVE bit of leaf 1 is clear, the raw AVX, AVX2 and AVX512 bits are still set.
\<close>

definition no_osxsave_cpu :: cpu where
  "no_osxsave_cpu =
    \<lparr>cpuid = (\<lambda>id. if id = 0 then \<lparr>eax = 13, ebx = 0, ecx = 0, edx = 0\<rparr>
                    else \<lparr>eax = 0, ebx = 0, ecx = 0x10080200, edx = 0x04000000\<rparr>),
     cpuidex = (\<lambda>id sid. \<lparr>eax = 0, ebx = 0x80010020, ecx = 0, edx = 0\<rparr>),
     xgetbv = 0xE7\<rparr>"

text \<open>A 64-bit build for a non-Windows target, and the same with the AVX512 kernels disabled.\<close>

definition unix_x64 :: build where
  "unix_x64 =
    \<lparr>IS_X86 = True, AMD64 = True, WIN32 = False, BLAKE3_NO_AVX512 = False,
     BLAKE3_NO_AVX2 = False, BLAKE3_NO_SSE41 = False, BLAKE3_NO_SSE2 = False,
     BLAKE3_USE_NEON = False\<rparr>"

definition unix_x64_no_avx512 :: build where
  "unix_x64_no_avx512 = unix_x64\<lparr>BLAKE3_NO_AVX512 := True\<rparr>"

text \<open>
  Kernels that make their tier and their arguments visible in the result: the in-place
  kernel prepends a tier number to the chaining value, the extended-output kernel writes
  the low byte of the counter plus the offset, the batch kernel writes the tier number at
  offset 0.
\<close>

definition tier_number :: "tier \<Rightarrow> nat" where
  "tier_number t =
    (case t of portable \<Rightarrow> 0 | sse2 \<Rightarrow> 1 | sse41 \<Rightarrow> 2 | avx2 \<Rightarrow> 3 | avx512 \<Rightarrow> 4 | neon \<Rightarrow> 5)"

definition example_kernels :: kernels where
  "example_kernels =
    \<lparr>compress_in_place_k = (\<lambda>t cv block block_len counter flags. of_nat (tier_number t) # cv),
     compress_xof_k = (\<lambda>t cv block block_len counter flags j. ucast counter + of_nat j),
     hash_many_k = (\<lambda>t inputs num_inputs blocks key counter increment_counter flags
                      flags_start flags_end out. out(0 := of_nat (tier_number t)))\<rparr>"

text \<open>A state in which the cache holds the capability set \<open>f\<close>.\<close>

definition cached :: "32 word \<Rightarrow> state" where
  "cached f = \<lparr>g_blake3_cpu_features = f, events = []\<rparr>"

section \<open>Properties\<close>

subsection \<open>Auxiliary facts\<close>

lemmas feature_defs =
  SSE2_def SSSE3_def SSE41_def AVX_def AVX2_def AVX512F_def AVX512VL_def UNDEFINED_def

lemmas example_defs =
  msvc_x64_def unix_x64_def unix_x64_no_avx512_def avx512_cpu_def no_osxsave_cpu_def
  example_kernels_def tier_number_def cached_def initial_state_def

lemmas chain_defs =
  capability_set_def consulted_def single_block_chain_def hash_many_chain_def has_def
  disabled_def lane_width_def new_events_def

lemmas operation_defs =
  blake3_get_cpu_features_def cpu_probe_def blake3_compress_in_place_def
  blake3_compress_xof_def blake3_hash_many_def blake3_simd_degree_def emit_def Let_def

lemma emit_emit: "emit es (emit ds s) = emit (ds @ es) s"
  by (simp add: emit_def)

lemma emit_fields:
  "g_blake3_cpu_features (emit es s) = g_blake3_cpu_features s"
  "events (emit es s) = events s @ es"
  by (simp_all add: emit_def)

text \<open>The probe sets bits 0 to 6 only, so its result is never the sentinel.\<close>

lemma cpu_probe_not_UNDEFINED: "fst (cpu_probe b h) \<noteq> UNDEFINED"
  by (simp add: cpu_probe_def Let_def feature_defs)

lemma cpu_probe_gate:
  "(fst (cpu_probe b h) AND AVX \<noteq> 0 \<or> fst (cpu_probe b h) AND AVX2 \<noteq> 0 \<or>
    fst (cpu_probe b h) AND AVX512F \<noteq> 0 \<or> fst (cpu_probe b h) AND AVX512VL \<noteq> 0 \<longrightarrow>
      bit (ecx (cpuid h 1)) 27 \<and> xgetbv h AND 6 = 6) \<and>
   (fst (cpu_probe b h) AND AVX512F \<noteq> 0 \<or> fst (cpu_probe b h) AND AVX512VL \<noteq> 0 \<longrightarrow>
      7 \<le> sint (eax (cpuid h 0)) \<and> xgetbv h AND 224 = 224)"
  by (simp add: cpu_probe_def Let_def feature_defs bit_iff_and_push_bit_not_eq_0)

lemma signed_leaf_unsigned: "7 \<le> sint (w :: 32 word) \<Longrightarrow> 7 \<le> uint w"
proof -
  assume a: "7 \<le> sint w"
  have "sint w < 2 ^ 31" using sint_lt [of w] by simp
  then have "take_bit 32 (sint w) = sint w"
    using a by (simp add: take_bit_int_eq_self)
  then have "uint w = sint w" by (simp add: uint_sint)
  then show ?thesis using a by simp
qed

lemma get_cpu_features_miss:
  "g_blake3_cpu_features s = UNDEFINED \<Longrightarrow>
   blake3_get_cpu_features b h s =
     (fst (cpu_probe b h),
      s\<lparr>g_blake3_cpu_features := fst (cpu_probe b h),
        events := events s @ [Load] @ snd (cpu_probe b h) @ [Store (fst (cpu_probe b h))]\<rparr>)"
  by (simp add: blake3_get_cpu_features_def Let_def emit_def)

lemma get_cpu_features_hit:
  "g_blake3_cpu_features s \<noteq> UNDEFINED \<Longrightarrow>
   blake3_get_cpu_features b h s = (g_blake3_cpu_features s, emit [Load] s)"
  by (simp add: blake3_get_cpu_features_def Let_def)

text \<open>After a lookup the cache is filled, and holds what the lookup returned.\<close>

lemma get_cpu_features_fills:
  "g_blake3_cpu_features (snd (blake3_get_cpu_features b h s)) =
     fst (blake3_get_cpu_features b h s)"
  "fst (blake3_get_cpu_features b h s) \<noteq> UNDEFINED"
  by (cases "g_blake3_cpu_features s = UNDEFINED";
      simp add: get_cpu_features_miss get_cpu_features_hit emit_fields
        cpu_probe_not_UNDEFINED)+

text \<open>For a single tier, the code's test \<open>features & TIER\<close> is membership.\<close>

lemma and_single_bit:
  "(f :: 32 word) AND push_bit n 1 = (if bit f n then push_bit n 1 else 0)"
  by (rule bit_eqI) (auto simp add: bit_simps)

lemma has_bit:
  "has f SSE2 = (f AND SSE2 \<noteq> 0)" "has f SSE41 = (f AND SSE41 \<noteq> 0)"
  "has f AVX2 = (f AND AVX2 \<noteq> 0)" "has f AVX512F = (f AND AVX512F \<noteq> 0)"
  "has f AVX512VL = (f AND AVX512VL \<noteq> 0)"
  unfolding has_def feature_defs and_single_bit by simp_all

lemma has_both:
  "(has f AVX512F \<and> has f AVX512VL) =
     (f AND (AVX512F OR AVX512VL) = (AVX512F OR AVX512VL))"
  unfolding has_def feature_defs bit.conj_disj_distrib and_single_bit by simp

text \<open>Each operation calls the kernel of the tier its chain names.\<close>

lemma compress_in_place_chain:
  "blake3_compress_in_place b h K cv block block_len counter flags s =
     (compress_in_place_k K (single_block_chain b (capability_set b h s)) cv block block_len
        counter flags,
      emit [Call compress_in_place (single_block_chain b (capability_set b h s))]
        (consulted b h s))"
  by (simp add: blake3_compress_in_place_def single_block_chain_def capability_set_def
      consulted_def disabled_def has_bit Let_def)

lemma compress_xof_chain:
  "blake3_compress_xof b h K cv block block_len counter flags s =
     (compress_xof_k K (single_block_chain b (capability_set b h s)) cv block block_len
        counter flags,
      emit [Call compress_xof (single_block_chain b (capability_set b h s))]
        (consulted b h s))"
  by (simp add: blake3_compress_xof_def single_block_chain_def capability_set_def
      consulted_def disabled_def has_bit Let_def)

lemma hash_many_chain:
  "blake3_hash_many b h K inputs num_inputs blocks key counter increment_counter flags
     flags_start flags_end out s =
     (hash_many_k K (hash_many_chain b (capability_set b h s)) inputs num_inputs blocks key
        counter increment_counter flags flags_start flags_end out,
      emit [Call hash_many (hash_many_chain b (capability_set b h s))] (consulted b h s))"
  by (simp add: blake3_hash_many_def hash_many_chain_def capability_set_def
      consulted_def disabled_def has_bit has_both [symmetric] Let_def)

lemma simd_degree_chain:
  "blake3_simd_degree b h s =
     (lane_width (hash_many_chain b (capability_set b h s)), consulted b h s)"
  by (simp add: blake3_simd_degree_def hash_many_chain_def capability_set_def
      consulted_def disabled_def has_bit has_both [symmetric] Let_def lane_width_def)

subsection \<open>The decomposition loop\<close>

lemma emit_Nil: "emit [] s = s"
  by (simp add: emit_def)

lemma capability_set_emit: "capability_set b h (emit es s) = capability_set b h s"
  by (cases "g_blake3_cpu_features s = UNDEFINED")
    (simp_all add: capability_set_def get_cpu_features_miss get_cpu_features_hit emit_fields)

lemma capability_set_consulted: "capability_set b h (consulted b h s) = capability_set b h s"
  by (simp add: capability_set_def consulted_def get_cpu_features_hit get_cpu_features_fills)

lemma consulted_filled:
  "IS_X86 b \<Longrightarrow> g_blake3_cpu_features (consulted b h s) \<noteq> UNDEFINED"
  by (simp add: consulted_def get_cpu_features_fills)

lemma consulted_stable:
  "IS_X86 b \<longrightarrow> g_blake3_cpu_features s \<noteq> UNDEFINED \<Longrightarrow>
   consulted b h s = emit (if IS_X86 b then [Load] else []) s"
  by (simp add: consulted_def get_cpu_features_hit emit_Nil)

lemma compress_xof_stable:
  "IS_X86 b \<longrightarrow> g_blake3_cpu_features s \<noteq> UNDEFINED \<Longrightarrow>
   blake3_compress_xof b h K cv block block_len counter flags s =
     (compress_xof_k K (single_block_chain b (capability_set b h s)) cv block block_len
        counter flags,
      emit (round_events b (single_block_chain b (capability_set b h s))) s)"
  by (simp add: compress_xof_chain consulted_stable emit_emit round_events_def)

lemma xof_blocks_done: "n \<le> i \<Longrightarrow> xof_blocks K t cv block block_len counter flags i n out = out"
  by (rule ext) (auto simp add: xof_blocks_def)

lemma block_index:
  "64 * i \<le> a \<Longrightarrow> a < 64 * i + 64 \<Longrightarrow> a div 64 = (i::nat) \<and> a mod 64 = a - 64 * i"
proof -
  assume a: "64 * i \<le> a" "a < 64 * i + 64"
  define r where "r = a - 64 * i"
  have "a = r + i * 64" "r < 64" using a by (simp_all add: r_def)
  then show ?thesis by simp
qed

lemma xof_blocks_step:
  assumes less: "i < n"
  shows "xof_blocks K t cv block block_len counter flags (Suc i) n
     (write64 out (64 * i) (compress_xof_k K t cv block block_len (counter + of_nat i) flags)) =
   xof_blocks K t cv block block_len counter flags i n out"
proof (rule ext)
  fix a
  consider (below) "a < 64 * i" | (inside) "64 * i \<le> a" "a < 64 * i + 64"
    | (above) "64 * i + 64 \<le> a"
    by linarith
  then show "xof_blocks K t cv block block_len counter flags (Suc i) n
     (write64 out (64 * i) (compress_xof_k K t cv block block_len (counter + of_nat i) flags)) a =
   xof_blocks K t cv block block_len counter flags i n out a"
  proof cases
    case below
    then show ?thesis by (simp add: xof_blocks_def write64_def)
  next
    case inside
    then have "a div 64 = i" "a mod 64 = a - 64 * i"
      using block_index [of i a] by simp_all
    moreover have "a < 64 * n" using inside less by simp
    ultimately show ?thesis using inside by (simp add: xof_blocks_def write64_def)
  next
    case above
    then have "64 * i \<le> a" "\<not> a < 64 * i + 64" by simp_all
    then show ?thesis using above by (simp add: xof_blocks_def write64_def)
  qed
qed

lemma xof_many_loop_stable:
  "IS_X86 b \<longrightarrow> g_blake3_cpu_features s \<noteq> UNDEFINED \<Longrightarrow>
   xof_many_loop b h K cv block block_len counter flags n i out s =
     (xof_blocks K (single_block_chain b (capability_set b h s)) cv block block_len counter
        flags i n out,
      emit (concat (replicate (n - i)
        (round_events b (single_block_chain b (capability_set b h s))))) s)"
proof (induction b h K cv block block_len counter flags n i out s rule: xof_many_loop.induct)
  case (1 b h K cv block block_len counter flags n i out s)
  let ?t = "single_block_chain b (capability_set b h s)"
  show ?case
  proof (cases "i < n")
    case False
    then show ?thesis
      by (subst xof_many_loop.simps) (simp add: xof_blocks_done emit_Nil)
  next
    case True
    have call: "blake3_compress_xof b h K cv block block_len (counter + of_nat i) flags s =
        (compress_xof_k K ?t cv block block_len (counter + of_nat i) flags,
         emit (round_events b ?t) s)"
      using "1.prems" by (rule compress_xof_stable)
    have stable: "IS_X86 b \<longrightarrow>
        g_blake3_cpu_features (snd (blake3_compress_xof b h K cv block block_len
          (counter + of_nat i) flags s)) \<noteq> UNDEFINED"
      using "1.prems" by (simp add: call emit_fields)
    have rounds: "replicate (n - i) (round_events b ?t) =
        round_events b ?t # replicate (n - (i + 1)) (round_events b ?t)"
      using True by (cases "n - i") simp_all
    show ?thesis
      using "1.IH" [OF True refl stable] True
      by (subst xof_many_loop.simps)
        (simp add: call capability_set_emit xof_blocks_step emit_emit rounds)
  qed
qed


lemma xof_many_loop_out:
  "fst (xof_many_loop b h K cv block block_len counter flags n i out s) =
     xof_blocks K (single_block_chain b (capability_set b h s)) cv block block_len counter
       flags i n out"
proof (cases "i < n")
  case False
  then show ?thesis
    by (subst xof_many_loop.simps) (simp add: xof_blocks_done)
next
  case True
  let ?t = "single_block_chain b (capability_set b h s)"
  let ?s = "emit [Call compress_xof ?t] (consulted b h s)"
  have stable: "IS_X86 b \<longrightarrow> g_blake3_cpu_features ?s \<noteq> UNDEFINED"
    by (simp add: emit_fields consulted_filled)
  have same: "capability_set b h ?s = capability_set b h s"
    by (simp add: capability_set_emit capability_set_consulted)
  show ?thesis
    using True xof_many_loop_stable [OF stable, of h K cv block block_len counter flags n "Suc i"]
    by (subst xof_many_loop.simps)
      (simp add: compress_xof_chain same xof_blocks_step)
qed

lemma single_block_chain_avx512:
  "\<not> BLAKE3_NO_AVX512 b \<Longrightarrow> has f AVX512VL \<Longrightarrow> single_block_chain b f = avx512"
  by (simp add: single_block_chain_def disabled_def)

lemma xof_many_avx512_blocks:
  "blake3_xof_many_avx512 K cv block block_len counter flags out n =
     xof_blocks K avx512 cv block block_len counter flags 0 n out"
  by (simp add: blake3_xof_many_avx512_def xof_blocks_def)

text \<open>The fast path of \<open>blake3_xof_many\<close> is taken under this condition.\<close>

lemma xof_many_chain:
  "0 < n \<Longrightarrow>
   blake3_xof_many b h K cv block block_len counter flags out n s =
     (xof_blocks K (single_block_chain b (capability_set b h s)) cv block block_len counter
        flags 0 n out,
      if IS_X86 b \<and> \<not> WIN32 b \<and> \<not> BLAKE3_NO_AVX512 b \<and> has (capability_set b h s) AVX512VL
      then emit [Call xof_many avx512] (consulted b h s)
      else emit (concat (replicate n
             (round_events b (single_block_chain b (capability_set b h s)))))
             (consulted b h s))"
proof (cases "IS_X86 b")
  case False
  then have stable: "IS_X86 b \<longrightarrow> g_blake3_cpu_features s \<noteq> UNDEFINED" by simp
  assume "0 < n"
  with False show ?thesis
    using xof_many_loop_stable [OF stable, of h K cv block block_len counter flags n 0 out]
    by (simp add: blake3_xof_many_def consulted_def)
next
  case True
  assume n: "0 < n"
  let ?s = "consulted b h s"
  have stable: "IS_X86 b \<longrightarrow> g_blake3_cpu_features ?s \<noteq> UNDEFINED"
    by (simp add: consulted_filled)
  have loop: "xof_many_loop b h K cv block block_len counter flags n 0 out ?s =
     (xof_blocks K (single_block_chain b (capability_set b h s)) cv block block_len counter
        flags 0 n out,
      emit (concat (replicate n
        (round_events b (single_block_chain b (capability_set b h s))))) ?s)"
    using xof_many_loop_stable [OF stable, of h K cv block block_len counter flags n 0 out]
    by (simp add: capability_set_consulted)
  have unfold: "snd (blake3_get_cpu_features b h s) = ?s"
       "fst (blake3_get_cpu_features b h s) = capability_set b h s"
    using True by (simp_all add: consulted_def capability_set_def)
  show ?thesis
    using True n
    by (simp add: blake3_xof_many_def Let_def unfold loop has_bit [symmetric]
        xof_many_avx512_blocks single_block_chain_avx512)
qed

subsection \<open>Events and chains\<close>

lemma new_eventsI: "events s' = events s @ es \<Longrightarrow> new_events s s' = es"
  by (simp add: new_events_def)

lemma cpu_probe_events:
  "set (snd (cpu_probe b h)) \<subseteq> {Cpuid 0, Cpuid 1, Xgetbv, Cpuidex 7 0}"
  "Cpuid 0 \<in> set (snd (cpu_probe b h))"
  by (simp_all add: cpu_probe_def Let_def)

text \<open>What consulting the capability set emits.\<close>

lemma consulted_events:
  "events (consulted b h s) = events s @
     (if IS_X86 b then
        if g_blake3_cpu_features s = UNDEFINED
        then [Load] @ snd (cpu_probe b h) @ [Store (fst (cpu_probe b h))]
        else [Load]
      else [])"
  by (simp add: consulted_def get_cpu_features_miss get_cpu_features_hit emit_fields)

lemma consulted_new_events:
  "events (consulted b h s) = events s @ new_events s (consulted b h s)"
  "e \<in> set (new_events s (consulted b h s)) \<Longrightarrow>
     e \<in> {Load, Store (fst (cpu_probe b h)), Cpuid 0, Cpuid 1, Xgetbv, Cpuidex 7 0}"
  using cpu_probe_events(1) [of b h]
  by (auto simp add: new_eventsI [OF consulted_events] consulted_events split: if_splits)

lemma consulted_cache:
  "g_blake3_cpu_features (consulted b h s) = g_blake3_cpu_features s \<or>
   g_blake3_cpu_features s = UNDEFINED \<and>
   g_blake3_cpu_features (consulted b h s) = fst (cpu_probe b h)"
  by (cases "g_blake3_cpu_features s = UNDEFINED")
     (simp_all add: consulted_def get_cpu_features_miss get_cpu_features_hit emit_fields)

lemma single_block_chain_enabled: "\<not> disabled b (single_block_chain b f)"
  by (simp add: single_block_chain_def disabled_def)

lemma hash_many_chain_enabled: "\<not> disabled b (hash_many_chain b f)"
  by (simp add: hash_many_chain_def disabled_def)

lemma single_block_chain_tiers:
  "single_block_chain b f = avx512 \<or> single_block_chain b f = sse41 \<or>
   single_block_chain b f = sse2 \<or> single_block_chain b f = portable"
  by (simp add: single_block_chain_def)

lemma hash_many_chain_avx512:
  "(hash_many_chain b f = avx512) =
     (\<not> BLAKE3_NO_AVX512 b \<and> f AND AVX512F \<noteq> 0 \<and> f AND AVX512VL \<noteq> 0)"
  by (simp add: hash_many_chain_def disabled_def has_bit)

lemma events_compress_in_place:
  "events (snd (blake3_compress_in_place b h K cv block block_len counter flags s)) =
     events s @ new_events s (consulted b h s) @
       [Call compress_in_place (single_block_chain b (capability_set b h s))]"
  using consulted_new_events(1) [of b h s]
  by (simp add: compress_in_place_chain emit_fields)

lemma events_compress_xof:
  "events (snd (blake3_compress_xof b h K cv block block_len counter flags s)) =
     events s @ new_events s (consulted b h s) @
       [Call compress_xof (single_block_chain b (capability_set b h s))]"
  using consulted_new_events(1) [of b h s]
  by (simp add: compress_xof_chain emit_fields)

lemma events_hash_many:
  "events (snd (blake3_hash_many b h K inputs num_inputs blocks key counter
     increment_counter flags flags_start flags_end out s)) =
     events s @ new_events s (consulted b h s) @
       [Call hash_many (hash_many_chain b (capability_set b h s))]"
  using consulted_new_events(1) [of b h s]
  by (simp add: hash_many_chain emit_fields)

lemma events_xof_many:
  "events (snd (blake3_xof_many b h K cv block block_len counter flags out n s)) =
     events s @
       (if n = 0 then []
        else new_events s (consulted b h s) @
          (if IS_X86 b \<and> \<not> WIN32 b \<and> \<not> BLAKE3_NO_AVX512 b \<and>
              has (capability_set b h s) AVX512VL
           then [Call xof_many avx512]
           else concat (replicate n
                  (round_events b (single_block_chain b (capability_set b h s))))))"
proof (cases "n = 0")
  case True
  then show ?thesis by (simp add: blake3_xof_many_def)
next
  case False
  then show ?thesis
    using consulted_new_events(1) [of b h s]
    by (simp add: xof_many_chain emit_fields)
qed

lemma round_events_calls:
  "Call opn t \<in> set (concat (replicate n (round_events b u))) \<Longrightarrow> opn = compress_xof \<and> t = u"
  by (auto simp add: round_events_def split: if_splits)

lemma consulted_no_call: "Call opn t \<notin> set (new_events s (consulted b h s))"
  using consulted_new_events(2) [of "Call opn t" s b h] by auto

lemma xof_blocks_at:
  "i < n \<Longrightarrow> j < 64 \<Longrightarrow>
   xof_blocks K t cv block block_len counter flags 0 n out (64 * i + j) =
     compress_xof_k K t cv block block_len (counter + of_nat i) flags j"
proof -
  assume a: "i < n" "j < 64"
  then have "64 * i + j < 64 * n" by simp
  moreover have "(64 * i + j) div 64 = i" "(64 * i + j) mod 64 = j" using a by simp_all
  ultimately show ?thesis by (simp add: xof_blocks_def)
qed

lemma xof_blocks_beyond:
  "64 * n \<le> a \<Longrightarrow> xof_blocks K t cv block block_len counter flags i n out a = out a"
  by (simp add: xof_blocks_def)

lemma xof_many_out:
  "fst (blake3_xof_many b h K cv block block_len counter flags out n s) =
     xof_blocks K (single_block_chain b (capability_set b h s)) cv block block_len counter
       flags 0 n out"
  by (cases "n = 0") (simp_all add: blake3_xof_many_def [of _ _ _ _ _ _ _ _ _ 0]
      xof_blocks_done xof_many_chain)

lemma xof_many_fast:
  "(Call xof_many avx512 \<in>
      set (new_events s (snd (blake3_xof_many b h K cv block block_len counter flags out n s)))) =
   (0 < n \<and> IS_X86 b \<and> \<not> WIN32 b \<and> \<not> BLAKE3_NO_AVX512 b \<and>
    capability_set b h s AND AVX512VL \<noteq> 0)"
  using round_events_calls [of xof_many avx512 n b "single_block_chain b (capability_set b h s)"]
  by (auto simp add: new_eventsI [OF events_xof_many] consulted_no_call has_bit
      simp del: set_concat)

subsection \<open>Independence of the SSSE3 bit\<close>

lemma bit_ignores_ssse3:
  assumes "f1 AND NOT SSSE3 = f2 AND NOT SSSE3" "n \<noteq> 1"
  shows "bit f1 n = bit f2 n"
proof -
  have "bit (f1 AND NOT SSSE3) n = bit (f2 AND NOT SSSE3) n" using assms(1) by simp
  then show ?thesis using assms(2)
    by (auto simp add: SSSE3_def bit_simps dest: bit_imp_le_length)
qed

lemma has_ignores_ssse3:
  assumes "f1 AND NOT SSSE3 = f2 AND NOT SSSE3"
  shows "has f1 SSE2 = has f2 SSE2" "has f1 SSE41 = has f2 SSE41" "has f1 AVX2 = has f2 AVX2"
    "has f1 AVX512F = has f2 AVX512F" "has f1 AVX512VL = has f2 AVX512VL"
  unfolding has_bit
  unfolding feature_defs bit_iff_and_push_bit_not_eq_0 [symmetric]
  by (simp_all add: bit_ignores_ssse3 [OF assms])

lemma chains_ignore_ssse3:
  assumes "f1 AND NOT SSSE3 = f2 AND NOT SSSE3"
  shows "single_block_chain b f1 = single_block_chain b f2"
    "hash_many_chain b f1 = hash_many_chain b f2"
  by (simp_all add: single_block_chain_def hash_many_chain_def has_ignores_ssse3 [OF assms])

lemma capability_set_filled:
  "g_blake3_cpu_features s \<noteq> UNDEFINED \<Longrightarrow>
   capability_set b h s = (if IS_X86 b then g_blake3_cpu_features s else 0)"
  by (simp add: capability_set_def get_cpu_features_hit)

lemma cpu_probe_ssse3: "(fst (cpu_probe b h) AND SSSE3 \<noteq> 0) = bit (ecx (cpuid h 1)) 9"
  by (simp add: cpu_probe_def Let_def feature_defs bit_iff_and_push_bit_not_eq_0)

subsection \<open>The cache along a run\<close>

lemma cache_step_refl: "cache_step b h s s"
  by (simp add: cache_step_def new_events_def)

lemma cache_step_trans:
  assumes "cache_step b h s0 s" "cache_step b h s s'"
  shows "cache_step b h s0 s'"
proof -
  have e: "events s' = events s0 @ new_events s0 s @ new_events s s'"
    using assms by (simp add: cache_step_def)
  have n: "new_events s0 s' = new_events s0 s @ new_events s s'"
    by (rule new_eventsI [OF e])
  show ?thesis
    using assms cpu_probe_not_UNDEFINED [of b h] unfolding cache_step_def n
    by (auto simp add: e)
qed

lemma cache_step_consulted: "cache_step b h s (consulted b h s)"
proof -
  have "stores_only (fst (cpu_probe b h)) e"
    if "e \<in> set (new_events s (consulted b h s))" for e
    using consulted_new_events(2) [OF that] by (auto simp add: stores_only_def)
  then have "list_all (stores_only (fst (cpu_probe b h)))
      (new_events s (consulted b h s))"
    by (simp add: list_all_iff)
  then show ?thesis
    using consulted_new_events(1) [of b h s] consulted_cache [of b h s]
    by (simp add: cache_step_def)
qed

lemma cache_step_emit:
  "list_all (stores_only (fst (cpu_probe b h))) es \<Longrightarrow>
   cache_step b h s (emit es s)"
  by (simp add: cache_step_def emit_fields new_eventsI [of "emit es s" s es])

lemma cache_step_consulted_emit:
  "list_all (stores_only (fst (cpu_probe b h))) es \<Longrightarrow>
   cache_step b h s (emit es (consulted b h s))"
  by (rule cache_step_trans [OF cache_step_consulted cache_step_emit])

lemma rounds_no_store:
  "list_all (stores_only p) (concat (replicate n (round_events b t)))"
  by (induction n) (simp_all add: round_events_def stores_only_def)

lemma cache_step_ops:
  "IS_X86 b \<Longrightarrow> cache_step b h s (snd (blake3_get_cpu_features b h s))"
  "cache_step b h s (snd (blake3_compress_in_place b h K cv block block_len counter flags s))"
  "cache_step b h s (snd (blake3_compress_xof b h K cv block block_len counter flags s))"
  "cache_step b h s (snd (blake3_xof_many b h K cv block block_len counter flags out n s))"
  "cache_step b h s (snd (blake3_hash_many b h K inputs num_inputs blocks key counter
     increment_counter flags flags_start flags_end out s))"
  "cache_step b h s (snd (blake3_simd_degree b h s))"
proof -
  show "IS_X86 b \<Longrightarrow> cache_step b h s (snd (blake3_get_cpu_features b h s))"
    using cache_step_consulted [of b h s] by (simp add: consulted_def)
  show "cache_step b h s
      (snd (blake3_compress_in_place b h K cv block block_len counter flags s))"
    by (simp add: compress_in_place_chain cache_step_consulted_emit stores_only_def)
  show "cache_step b h s (snd (blake3_compress_xof b h K cv block block_len counter flags s))"
    by (simp add: compress_xof_chain cache_step_consulted_emit stores_only_def)
  show "cache_step b h s
      (snd (blake3_xof_many b h K cv block block_len counter flags out n s))"
  proof (cases "n = 0")
    case True
    then show ?thesis by (simp add: blake3_xof_many_def cache_step_refl)
  next
    case False
    then show ?thesis
      by (simp add: xof_many_chain cache_step_consulted_emit rounds_no_store stores_only_def)
  qed
  show "cache_step b h s (snd (blake3_hash_many b h K inputs num_inputs blocks key counter
     increment_counter flags flags_start flags_end out s))"
    by (simp add: hash_many_chain cache_step_consulted_emit stores_only_def)
  show "cache_step b h s (snd (blake3_simd_degree b h s))"
    by (simp add: simd_degree_chain cache_step_consulted)
qed

lemma reachable_cache_step: "reachable b h K s0 s \<Longrightarrow> cache_step b h s0 s"
proof (induction rule: reachable.induct)
  case start
  show ?case by (rule cache_step_refl)
next
  case (get_cpu_features s)
  then show ?case by (blast intro: cache_step_trans cache_step_ops(1))
next
  case (compress_in_place s cv block block_len counter flags)
  then show ?case by (blast intro: cache_step_trans cache_step_ops(2))
next
  case (compress_xof s cv block block_len counter flags)
  then show ?case by (blast intro: cache_step_trans cache_step_ops(3))
next
  case (xof_many s cv block block_len counter flags out outblocks)
  then show ?case by (blast intro: cache_step_trans cache_step_ops(4))
next
  case (hash_many s inputs num_inputs blocks key counter increment_counter flags flags_start
      flags_end out)
  then show ?case by (blast intro: cache_step_trans cache_step_ops(5))
next
  case (simd_degree s)
  then show ?case by (blast intro: cache_step_trans cache_step_ops(6))
qed

subsection \<open>Gating of the AVX tiers\<close>

text \<open>
  Claim C1. Whatever the CPUID leaves and the XGETBV mask report, the capability set that
  \<open>blake3_get_cpu_features\<close> returns contains AVX, AVX2, AVX512F or AVX512VL only if the
  OSXSAVE bit (bit 27 of leaf 1's ecx) is set and the mask has bits 1 and 2 set; it
  contains AVX512F or AVX512VL only if moreover the maximum leaf is at least 7 (as the
  signed value the code compares, hence also as the unsigned register) and the mask has
  bits 5, 6 and 7 set. This is for a cache that holds the sentinel or an earlier result of
  the probe, as it does along every run from the initial state.
\<close>

theorem get_cpu_features_gating:
  assumes "g_blake3_cpu_features s = UNDEFINED \<or>
           g_blake3_cpu_features s = fst (cpu_probe b h)"
  shows "(let f = fst (blake3_get_cpu_features b h s) in
     (f AND AVX \<noteq> 0 \<or> f AND AVX2 \<noteq> 0 \<or> f AND AVX512F \<noteq> 0 \<or> f AND AVX512VL \<noteq> 0 \<longrightarrow>
        bit (ecx (cpuid h 1)) 27 \<and> xgetbv h AND 6 = 6) \<and>
     (f AND AVX512F \<noteq> 0 \<or> f AND AVX512VL \<noteq> 0 \<longrightarrow>
        7 \<le> sint (eax (cpuid h 0)) \<and> 7 \<le> uint (eax (cpuid h 0)) \<and>
        xgetbv h AND 224 = 224))"
proof -
  have "fst (blake3_get_cpu_features b h s) = fst (cpu_probe b h)"
    using assms by (cases "g_blake3_cpu_features s = UNDEFINED")
      (simp_all add: get_cpu_features_miss get_cpu_features_hit)
  then show ?thesis
    using cpu_probe_gate [of b h] signed_leaf_unsigned [of "eax (cpuid h 0)"]
    by (simp add: Let_def)
qed

theorem get_cpu_features_gating_witness:
  "g_blake3_cpu_features initial_state = UNDEFINED \<and>
   fst (blake3_get_cpu_features msvc_x64 avx512_cpu initial_state) = 127 \<and>
   bit (ecx (cpuid avx512_cpu 1)) 27 \<and> xgetbv avx512_cpu AND 6 = 6 \<and>
   7 \<le> sint (eax (cpuid avx512_cpu 0)) \<and> xgetbv avx512_cpu AND 224 = 224"
  using get_cpu_features_gating [of initial_state msvc_x64 avx512_cpu]
  by (simp add: blake3_get_cpu_features_def cpu_probe_def Let_def emit_def
      initial_state_def msvc_x64_def avx512_cpu_def feature_defs)

text \<open>
  The synthetic probe input of the specification: with OSXSAVE clear, the raw AVX bit of
  leaf 1 and the raw AVX2 and AVX512 bits of leaf 7 do not reach the capability set.
\<close>

lemma no_osxsave_example:
  "ecx (cpuid no_osxsave_cpu 1) AND push_bit 28 1 \<noteq> 0 \<and>
   ebx (cpuidex no_osxsave_cpu 7 0) AND push_bit 5 1 \<noteq> 0 \<and>
   blake3_get_cpu_features msvc_x64 no_osxsave_cpu initial_state =
     (SSE2 OR SSSE3 OR SSE41,
      \<lparr>g_blake3_cpu_features = SSE2 OR SSSE3 OR SSE41,
       events = [Load, Cpuid 0, Cpuid 1, Store (SSE2 OR SSSE3 OR SSE41)]\<rparr>)"
  by (simp add: blake3_get_cpu_features_def cpu_probe_def Let_def emit_def
      initial_state_def msvc_x64_def no_osxsave_cpu_def feature_defs)

subsection \<open>The cache protocol\<close>

text \<open>
  Claim C3. The cache starts as the sentinel. \<open>blake3_get_cpu_features\<close> loads it; if
  the loaded value is the sentinel it runs the probe, stores the probe's result and
  returns it; otherwise it returns the stored value, with no processor query and no
  store. The probe runs if and only if the loaded value is the sentinel (its first query,
  CPUID leaf 0, is among the events of the call exactly then). The probe's result is never
  the sentinel. Along any run of the functions of the file, from any state, the cache
  either stays as it was or has gone from the sentinel to the probe's result, and every
  store of the run writes the probe's result.
\<close>

theorem cache_protocol:
  "g_blake3_cpu_features initial_state = UNDEFINED \<and>
   (g_blake3_cpu_features s = UNDEFINED \<longrightarrow>
      blake3_get_cpu_features b h s =
        (fst (cpu_probe b h),
         s\<lparr>g_blake3_cpu_features := fst (cpu_probe b h),
           events := events s @ [Load] @ snd (cpu_probe b h) @
             [Store (fst (cpu_probe b h))]\<rparr>)) \<and>
   (g_blake3_cpu_features s \<noteq> UNDEFINED \<longrightarrow>
      blake3_get_cpu_features b h s =
        (g_blake3_cpu_features s, s\<lparr>events := events s @ [Load]\<rparr>)) \<and>
   (Cpuid 0 \<in> set (new_events s (snd (blake3_get_cpu_features b h s)))) =
     (g_blake3_cpu_features s = UNDEFINED) \<and>
   fst (cpu_probe b h) \<noteq> UNDEFINED \<and>
   (reachable b h K s0 s' \<longrightarrow>
      (g_blake3_cpu_features s' = g_blake3_cpu_features s0 \<or>
       g_blake3_cpu_features s0 = UNDEFINED \<and>
       g_blake3_cpu_features s' = fst (cpu_probe b h)) \<and>
      events s' = events s0 @ new_events s0 s' \<and>
      (\<forall>v. Store v \<in> set (new_events s0 s') \<longrightarrow> v = fst (cpu_probe b h)))"
proof -
  have init: "g_blake3_cpu_features initial_state = UNDEFINED"
    by (simp add: initial_state_def)
  have miss: "g_blake3_cpu_features s = UNDEFINED \<longrightarrow>
      blake3_get_cpu_features b h s =
        (fst (cpu_probe b h),
         s\<lparr>g_blake3_cpu_features := fst (cpu_probe b h),
           events := events s @ [Load] @ snd (cpu_probe b h) @
             [Store (fst (cpu_probe b h))]\<rparr>)"
    by (simp add: get_cpu_features_miss)
  have hit: "g_blake3_cpu_features s \<noteq> UNDEFINED \<longrightarrow>
      blake3_get_cpu_features b h s =
        (g_blake3_cpu_features s, s\<lparr>events := events s @ [Load]\<rparr>)"
    by (simp add: get_cpu_features_hit emit_def)
  have probes: "(Cpuid 0 \<in> set (new_events s (snd (blake3_get_cpu_features b h s)))) =
     (g_blake3_cpu_features s = UNDEFINED)"
    using cpu_probe_events(2) [of b h]
    by (cases "g_blake3_cpu_features s = UNDEFINED")
      (simp_all add: get_cpu_features_miss get_cpu_features_hit new_events_def emit_fields)
  have ever: "reachable b h K s0 s' \<longrightarrow>
      (g_blake3_cpu_features s' = g_blake3_cpu_features s0 \<or>
       g_blake3_cpu_features s0 = UNDEFINED \<and>
       g_blake3_cpu_features s' = fst (cpu_probe b h)) \<and>
      events s' = events s0 @ new_events s0 s' \<and>
      (\<forall>v. Store v \<in> set (new_events s0 s') \<longrightarrow> v = fst (cpu_probe b h))"
  proof
    assume "reachable b h K s0 s'"
    then have step: "cache_step b h s0 s'" by (rule reachable_cache_step)
    then have "\<forall>e \<in> set (new_events s0 s'). stores_only (fst (cpu_probe b h)) e"
      by (simp add: cache_step_def list_all_iff)
    then have "\<forall>v. Store v \<in> set (new_events s0 s') \<longrightarrow> v = fst (cpu_probe b h)"
      by (auto simp add: stores_only_def)
    with step show "(g_blake3_cpu_features s' = g_blake3_cpu_features s0 \<or>
       g_blake3_cpu_features s0 = UNDEFINED \<and>
       g_blake3_cpu_features s' = fst (cpu_probe b h)) \<and>
      events s' = events s0 @ new_events s0 s' \<and>
      (\<forall>v. Store v \<in> set (new_events s0 s') \<longrightarrow> v = fst (cpu_probe b h))"
      by (simp add: cache_step_def)
  qed
  from init miss hit probes cpu_probe_not_UNDEFINED [of b h] ever show ?thesis
    by (intro conjI)
qed

theorem cache_protocol_witness:
  "blake3_get_cpu_features msvc_x64 avx512_cpu initial_state =
     (127, \<lparr>g_blake3_cpu_features = 127,
            events = [Load, Cpuid 0, Cpuid 1, Xgetbv, Cpuidex 7 0, Store 127]\<rparr>) \<and>
   blake3_get_cpu_features msvc_x64 avx512_cpu (cached 127) =
     (127, \<lparr>g_blake3_cpu_features = 127, events = [Load]\<rparr>) \<and>
   reachable msvc_x64 avx512_cpu example_kernels initial_state
     (snd (blake3_simd_degree msvc_x64 avx512_cpu initial_state)) \<and>
   snd (blake3_simd_degree msvc_x64 avx512_cpu initial_state) =
     \<lparr>g_blake3_cpu_features = 127,
      events = [Load, Cpuid 0, Cpuid 1, Xgetbv, Cpuidex 7 0, Store 127]\<rparr> \<and>
   fst (cpu_probe msvc_x64 avx512_cpu) = 127"
proof -
  have r: "reachable msvc_x64 avx512_cpu example_kernels initial_state
     (snd (blake3_simd_degree msvc_x64 avx512_cpu initial_state))"
    by (rule reachable.simd_degree [OF reachable.start])
  show ?thesis
    using r
      cache_protocol [where s = initial_state and b = msvc_x64 and h = avx512_cpu
        and K = example_kernels and ?s0.0 = initial_state
        and s' = "snd (blake3_simd_degree msvc_x64 avx512_cpu initial_state)"]
      cache_protocol [where s = "cached 127" and b = msvc_x64 and h = avx512_cpu
        and K = example_kernels and ?s0.0 = initial_state and s' = initial_state]
    by (simp add: operation_defs example_defs feature_defs chain_defs)
qed

subsection \<open>Single-block dispatch\<close>

text \<open>
  Claim C4. For every capability set and every toggle configuration,
  \<open>blake3_compress_in_place\<close> and \<open>blake3_compress_xof\<close> call the kernel of the first
  tier of the chain AVX512VL, SSE4.1, SSE2, portable that is supported and not disabled,
  with their own arguments; the tier is never AVX2 (and the file has no AVX kernel).
\<close>

theorem single_block_dispatch:
  "(let t = single_block_chain b (capability_set b h s) in
     blake3_compress_in_place b h K cv block block_len counter flags s =
       (compress_in_place_k K t cv block block_len counter flags,
        emit [Call compress_in_place t] (consulted b h s)) \<and>
     blake3_compress_xof b h K cv block block_len counter flags s =
       (compress_xof_k K t cv block block_len counter flags,
        emit [Call compress_xof t] (consulted b h s)) \<and>
     (t = avx512 \<or> t = sse41 \<or> t = sse2 \<or> t = portable))"
  using single_block_chain_tiers [of b "capability_set b h s"]
  by (simp add: Let_def compress_in_place_chain compress_xof_chain)

theorem single_block_dispatch_witness:
  "blake3_compress_in_place unix_x64 avx512_cpu example_kernels [7] [] 64 0 0
     (cached (AVX2 OR AVX OR SSE2)) =
     ([1, 7], \<lparr>g_blake3_cpu_features = AVX2 OR AVX OR SSE2,
               events = [Load, Call compress_in_place sse2]\<rparr>) \<and>
   single_block_chain unix_x64 (AVX2 OR AVX OR SSE2) = sse2"
  using single_block_dispatch [of unix_x64 avx512_cpu "cached (AVX2 OR AVX OR SSE2)"
      example_kernels "[7]" "[]" 64 0 0]
  by (simp add: blake3_compress_in_place_def blake3_get_cpu_features_def Let_def emit_def
      cached_def unix_x64_def example_kernels_def tier_number_def feature_defs
      single_block_chain_def has_def disabled_def)

subsection \<open>Batch dispatch\<close>

text \<open>
  Claim C5. For every capability set and every toggle configuration,
  \<open>blake3_hash_many\<close> calls the kernel of the first available tier of the chain AVX512
  (both AVX512F and AVX512VL present), AVX2, SSE4.1, SSE2, NEON (if targeted at compile
  time), portable; the AVX512 kernel is chosen exactly when it is not disabled and the
  capability set has both AVX512F and AVX512VL, so one of the two alone is not enough.
\<close>

theorem hash_many_dispatch:
  "(let f = capability_set b h s; t = hash_many_chain b f in
     blake3_hash_many b h K inputs num_inputs blocks key counter increment_counter flags
       flags_start flags_end out s =
       (hash_many_k K t inputs num_inputs blocks key counter increment_counter flags
          flags_start flags_end out,
        emit [Call hash_many t] (consulted b h s)) \<and>
     (t = avx512) = (\<not> BLAKE3_NO_AVX512 b \<and> f AND AVX512F \<noteq> 0 \<and> f AND AVX512VL \<noteq> 0))"
  by (simp add: Let_def hash_many_chain hash_many_chain_avx512)

theorem hash_many_dispatch_witness:
  "fst (blake3_hash_many unix_x64 avx512_cpu example_kernels [] 0 0 [] 0 False 0 0 0 (\<lambda>a. 0)
     (cached (AVX512VL OR SSE41))) 0 = 2 \<and>
   events (snd (blake3_hash_many unix_x64 avx512_cpu example_kernels [] 0 0 [] 0 False 0 0 0
     (\<lambda>a. 0) (cached (AVX512VL OR SSE41)))) = [Load, Call hash_many sse41] \<and>
   hash_many_chain unix_x64 (AVX512VL OR SSE41) = sse41 \<and>
   hash_many_chain unix_x64 (AVX512F OR AVX2) = avx2 \<and>
   hash_many_chain unix_x64 (AVX512F OR AVX512VL) = avx512"
  using hash_many_dispatch [of unix_x64 avx512_cpu "cached (AVX512VL OR SSE41)"
      example_kernels "[]" 0 0 "[]" 0 False 0 0 0 "\<lambda>a. 0"]
  by (simp add: operation_defs example_defs feature_defs chain_defs)

subsection \<open>Lane width\<close>

text \<open>
  Claim C6. In every state and configuration there is one tier \<open>t\<close> such that
  \<open>blake3_hash_many\<close> calls the kernel of \<open>t\<close> and \<open>blake3_simd_degree\<close> returns the lane
  width of \<open>t\<close>: 16 for AVX512, 8 for AVX2, 4 for SSE4.1, SSE2 and NEON, 1 for portable.
\<close>

theorem simd_degree_agrees:
  "\<exists>t. blake3_hash_many b h K inputs num_inputs blocks key counter increment_counter flags
         flags_start flags_end out s =
         (hash_many_k K t inputs num_inputs blocks key counter increment_counter flags
            flags_start flags_end out,
          emit [Call hash_many t] (consulted b h s)) \<and>
       blake3_simd_degree b h s = (lane_width t, consulted b h s)"
  by (rule exI [of _ "hash_many_chain b (capability_set b h s)"])
    (simp add: hash_many_chain simd_degree_chain)

theorem simd_degree_agrees_witness:
  "blake3_simd_degree unix_x64 avx512_cpu (cached (AVX2 OR SSE2)) =
     (8, \<lparr>g_blake3_cpu_features = AVX2 OR SSE2, events = [Load]\<rparr>) \<and>
   events (snd (blake3_hash_many unix_x64 avx512_cpu example_kernels [] 0 0 [] 0 False 0 0 0
     (\<lambda>a. 0) (cached (AVX2 OR SSE2)))) = [Load, Call hash_many avx2] \<and>
   lane_width avx2 = 8"
  using simd_degree_agrees [of unix_x64 avx512_cpu example_kernels "[]" 0 0 "[]" 0 False 0 0
      0 "\<lambda>a. 0" "cached (AVX2 OR SSE2)"]
  by (simp add: operation_defs example_defs feature_defs chain_defs)

subsection \<open>Compile-time toggles\<close>

text \<open>
  Claim C7. Whatever the capability set holds, none of the four operations calls a kernel
  of a tier that a compile-time toggle disables: a call of such a kernel is among the
  events after the operation only if it was among them before.
\<close>

theorem disabled_tier_never_called:
  assumes "disabled b t"
  shows "(Call opn t \<in> set (events
            (snd (blake3_compress_in_place b h K cv block block_len counter flags s)))) =
           (Call opn t \<in> set (events s)) \<and>
         (Call opn t \<in> set (events
            (snd (blake3_compress_xof b h K cv block block_len counter flags s)))) =
           (Call opn t \<in> set (events s)) \<and>
         (Call opn t \<in> set (events
            (snd (blake3_xof_many b h K cv block block_len counter flags out n s)))) =
           (Call opn t \<in> set (events s)) \<and>
         (Call opn t \<in> set (events
            (snd (blake3_hash_many b h K inputs num_inputs blocks key counter
               increment_counter flags flags_start flags_end out' s)))) =
           (Call opn t \<in> set (events s))"
proof -
  have single: "t \<noteq> single_block_chain b (capability_set b h s)"
    using assms single_block_chain_enabled [of b "capability_set b h s"] by auto
  have many: "t \<noteq> hash_many_chain b (capability_set b h s)"
    using assms hash_many_chain_enabled [of b "capability_set b h s"] by auto
  have fast: "IS_X86 b \<and> \<not> WIN32 b \<and> \<not> BLAKE3_NO_AVX512 b \<and> has (capability_set b h s) AVX512VL
      \<Longrightarrow> t \<noteq> avx512"
    using assms by (auto simp add: disabled_def)
  have 1: "(Call opn t \<in> set (events
            (snd (blake3_compress_in_place b h K cv block block_len counter flags s)))) =
           (Call opn t \<in> set (events s))"
    using single by (simp add: events_compress_in_place consulted_no_call)
  have 2: "(Call opn t \<in> set (events
            (snd (blake3_compress_xof b h K cv block block_len counter flags s)))) =
           (Call opn t \<in> set (events s))"
    using single by (simp add: events_compress_xof consulted_no_call)
  have 3: "(Call opn t \<in> set (events
            (snd (blake3_xof_many b h K cv block block_len counter flags out n s)))) =
           (Call opn t \<in> set (events s))"
    using single fast round_events_calls [of opn t n b "single_block_chain b (capability_set b h s)"]
    by (auto simp add: events_xof_many consulted_no_call simp del: set_concat)
  have 4: "(Call opn t \<in> set (events
            (snd (blake3_hash_many b h K inputs num_inputs blocks key counter
               increment_counter flags flags_start flags_end out' s)))) =
           (Call opn t \<in> set (events s))"
    using many by (simp add: events_hash_many consulted_no_call)
  from 1 2 3 4 show ?thesis by (intro conjI)
qed

theorem disabled_tier_never_called_witness:
  "disabled unix_x64_no_avx512 avx512 \<and>
   has 127 AVX512F \<and> has 127 AVX512VL \<and>
   events (snd (blake3_compress_in_place unix_x64_no_avx512 avx512_cpu example_kernels [] []
     64 0 0 (cached 127))) = [Load, Call compress_in_place sse41] \<and>
   events (snd (blake3_hash_many unix_x64_no_avx512 avx512_cpu example_kernels [] 0 0 [] 0
     False 0 0 0 (\<lambda>a. 0) (cached 127))) = [Load, Call hash_many avx2]"
proof -
  have d: "disabled unix_x64_no_avx512 avx512"
    by (simp add: disabled_def example_defs)
  show ?thesis
    using d disabled_tier_never_called [OF d, of compress_in_place avx512_cpu
        example_kernels "[]" "[]" 64 0 0 "cached 127" "\<lambda>a. 0" 1 "[]" 0 0 "[]" False 0 0 "\<lambda>a. 0"]
    by (simp add: operation_defs example_defs feature_defs chain_defs)
qed

subsection \<open>Multi-block extended output\<close>

text \<open>
  Claim C8. For every block count \<open>n\<close> (the claim asks for \<open>n \<ge> 1\<close>; \<open>n = 0\<close> holds
  too), the buffer that \<open>blake3_xof_many\<close> returns is the one the decomposition loop
  returns; its bytes \<open>64 * i\<close> to \<open>64 * i + 63\<close>, for \<open>i < n\<close>, are the result of
  \<open>blake3_compress_xof\<close> at counter \<open>counter + i\<close>, and the bytes from \<open>64 * n\<close> on are
  untouched. The events of the call extend those before it, and among them the AVX512
  kernel is called exactly when \<open>n > 0\<close>, the target is x86 and not
  Windows, AVX512 is not disabled and the capability set has AVX512VL, and then the
  buffer is that kernel's output.
\<close>

theorem xof_many_decomposes:
  "fst (blake3_xof_many b h K cv block block_len counter flags out n s) =
     fst (xof_many_loop b h K cv block block_len counter flags n 0 out s) \<and>
   (\<forall>i<n. \<forall>j<64.
      fst (blake3_xof_many b h K cv block block_len counter flags out n s) (64 * i + j) =
      fst (blake3_compress_xof b h K cv block block_len (counter + of_nat i) flags s) j) \<and>
   (\<forall>a. 64 * n \<le> a \<longrightarrow>
      fst (blake3_xof_many b h K cv block block_len counter flags out n s) a = out a) \<and>
   events (snd (blake3_xof_many b h K cv block block_len counter flags out n s)) =
     events s @
     new_events s (snd (blake3_xof_many b h K cv block block_len counter flags out n s)) \<and>
   (Call xof_many avx512 \<in>
      set (new_events s (snd (blake3_xof_many b h K cv block block_len counter flags out n s)))) =
     (0 < n \<and> IS_X86 b \<and> \<not> WIN32 b \<and> \<not> BLAKE3_NO_AVX512 b \<and>
      capability_set b h s AND AVX512VL \<noteq> 0) \<and>
   (0 < n \<and> IS_X86 b \<and> \<not> WIN32 b \<and> \<not> BLAKE3_NO_AVX512 b \<and>
    capability_set b h s AND AVX512VL \<noteq> 0 \<longrightarrow>
      fst (blake3_xof_many b h K cv block block_len counter flags out n s) =
      blake3_xof_many_avx512 K cv block block_len counter flags out n)"
proof -
  let ?t = "single_block_chain b (capability_set b h s)"
  have 1: "fst (blake3_xof_many b h K cv block block_len counter flags out n s) =
     fst (xof_many_loop b h K cv block block_len counter flags n 0 out s)"
    by (simp add: xof_many_out xof_many_loop_out)
  have 2: "\<forall>i<n. \<forall>j<64.
      fst (blake3_xof_many b h K cv block block_len counter flags out n s) (64 * i + j) =
      fst (blake3_compress_xof b h K cv block block_len (counter + of_nat i) flags s) j"
    by (simp add: xof_many_out xof_blocks_at compress_xof_chain)
  have 3: "\<forall>a. 64 * n \<le> a \<longrightarrow>
      fst (blake3_xof_many b h K cv block block_len counter flags out n s) a = out a"
    by (simp add: xof_many_out xof_blocks_beyond)
  have 5: "0 < n \<and> IS_X86 b \<and> \<not> WIN32 b \<and> \<not> BLAKE3_NO_AVX512 b \<and>
    capability_set b h s AND AVX512VL \<noteq> 0 \<longrightarrow>
      fst (blake3_xof_many b h K cv block block_len counter flags out n s) =
      blake3_xof_many_avx512 K cv block block_len counter flags out n"
    by (simp add: xof_many_out xof_many_avx512_blocks single_block_chain_avx512 has_bit)
  have 4: "events (snd (blake3_xof_many b h K cv block block_len counter flags out n s)) =
     events s @
     new_events s (snd (blake3_xof_many b h K cv block block_len counter flags out n s))"
    unfolding new_eventsI [OF events_xof_many] by (rule events_xof_many)
  from 1 2 3 4 xof_many_fast [of s b h K cv block block_len counter flags out n] 5
  show ?thesis by (intro conjI)
qed

theorem xof_many_decomposes_witness:
  "fst (blake3_xof_many unix_x64 avx512_cpu example_kernels [] [] 64 5 0 (\<lambda>a. 0) 3
      initial_state) 129 = 8 \<and>
   fst (blake3_compress_xof unix_x64 avx512_cpu example_kernels [] [] 64 7 0 initial_state) 1
      = 8 \<and>
   fst (blake3_xof_many unix_x64 avx512_cpu example_kernels [] [] 64 5 0 (\<lambda>a. 0) 3
      initial_state) 192 = 0 \<and>
   Call xof_many avx512 \<in> set (new_events initial_state
     (snd (blake3_xof_many unix_x64 avx512_cpu example_kernels [] [] 64 5 0 (\<lambda>a. 0) 3
        initial_state))) \<and>
   blake3_xof_many_avx512 example_kernels [] [] 64 5 0 (\<lambda>a. 0) 3 129 = 8"
proof -
  note decomposes =
    xof_many_decomposes [of unix_x64 avx512_cpu example_kernels "[]" "[]" 64 5 0
      "\<lambda>a. 0" 3 initial_state]
  have single: "fst (blake3_compress_xof unix_x64 avx512_cpu example_kernels [] [] 64 7 0
      initial_state) 1 = 8"
    by (simp add: operation_defs example_defs feature_defs)
  have fast: "0 < (3::nat) \<and> IS_X86 unix_x64 \<and> \<not> WIN32 unix_x64 \<and>
      \<not> BLAKE3_NO_AVX512 unix_x64 \<and>
      capability_set unix_x64 avx512_cpu initial_state AND AVX512VL \<noteq> 0"
    by (simp add: operation_defs example_defs feature_defs chain_defs)
  have "(2::nat) < 3" "(1::nat) < 64" by simp_all
  with decomposes
  have "fst (blake3_xof_many unix_x64 avx512_cpu example_kernels [] [] 64 5 0 (\<lambda>a. 0) 3
      initial_state) (64 * 2 + 1) =
    fst (blake3_compress_xof unix_x64 avx512_cpu example_kernels [] [] 64 (5 + of_nat 2) 0
      initial_state) 1"
    by blast
  then have block: "fst (blake3_xof_many unix_x64 avx512_cpu example_kernels [] [] 64 5 0
      (\<lambda>a. 0) 3 initial_state) 129 = 8"
    using single by simp
  have "64 * 3 \<le> (192::nat)" by simp
  with decomposes
  have beyond: "fst (blake3_xof_many unix_x64 avx512_cpu example_kernels [] [] 64 5 0
      (\<lambda>a. 0) 3 initial_state) 192 = 0"
    by blast
  from decomposes fast
  have called: "Call xof_many avx512 \<in> set (new_events initial_state
     (snd (blake3_xof_many unix_x64 avx512_cpu example_kernels [] [] 64 5 0 (\<lambda>a. 0) 3
        initial_state)))"
    by blast
  from decomposes fast
  have "fst (blake3_xof_many unix_x64 avx512_cpu example_kernels [] [] 64 5 0 (\<lambda>a. 0) 3
      initial_state) = blake3_xof_many_avx512 example_kernels [] [] 64 5 0 (\<lambda>a. 0) 3"
    by blast
  with block have kernel: "blake3_xof_many_avx512 example_kernels [] [] 64 5 0 (\<lambda>a. 0) 3 129 = 8"
    by simp
  from block single beyond called kernel show ?thesis by (intro conjI)
qed

text \<open>
  The test of the specification, three blocks from counter 5: on a Windows build the loop
  runs and calls the single-block kernel at counters 5, 6 and 7; elsewhere one call of the
  AVX512 multi-block kernel gives the same bytes.
\<close>

lemma xof_many_example:
  "events (snd (blake3_xof_many msvc_x64 avx512_cpu example_kernels [] [] 64 5 0 (\<lambda>a. 0) 3
      (cached 127))) =
     [Load, Load, Call compress_xof avx512, Load, Call compress_xof avx512,
      Load, Call compress_xof avx512] \<and>
   map (fst (blake3_xof_many msvc_x64 avx512_cpu example_kernels [] [] 64 5 0 (\<lambda>a. 0) 3
      (cached 127))) [0, 63, 64, 128, 191, 192] = [5, 68, 6, 7, 70, 0]"
  by (simp add: blake3_xof_many_def xof_many_loop.simps write64_def operation_defs
      example_defs feature_defs)

lemma xof_many_fast_example:
  "blake3_xof_many unix_x64 avx512_cpu example_kernels [] [] 64 5 0 (\<lambda>a. 0) 3 (cached 127) =
     (blake3_xof_many_avx512 example_kernels [] [] 64 5 0 (\<lambda>a. 0) 3,
      \<lparr>g_blake3_cpu_features = 127, events = [Load, Call xof_many avx512]\<rparr>) \<and>
   map (blake3_xof_many_avx512 example_kernels [] [] 64 5 0 (\<lambda>a. 0) 3)
     [0, 63, 64, 128, 191, 192] = [5, 68, 6, 7, 70, 0]"
  by (simp add: blake3_xof_many_def blake3_xof_many_avx512_def operation_defs
      example_defs feature_defs)

subsection \<open>The degenerate block count\<close>

text \<open>
  Claim C9. With \<open>outblocks = 0\<close>, \<open>blake3_xof_many\<close> returns at once: the output
  buffer is the one passed in, and the state is unchanged, so the cache was not read and
  no kernel was called.
\<close>

theorem xof_many_zero:
  "blake3_xof_many b h K cv block block_len counter flags out 0 s = (out, s)"
  by (simp add: blake3_xof_many_def)

subsection \<open>The SSSE3 bit\<close>

text \<open>
  Claim C10. The probe sets the SSSE3 bit exactly when bit 9 of leaf 1's ecx is set, and
  the first lookup stores the probe's result in the cache. No dispatch decision depends
  on the bit: in two states whose caches hold capability sets that differ at most in the
  SSSE3 bit, each of the four operations returns the same result and emits the same
  events (so calls the same kernel), and \<open>blake3_simd_degree\<close> returns the same value.
\<close>

theorem ssse3_not_consulted:
  assumes "g_blake3_cpu_features s1 \<noteq> UNDEFINED" "g_blake3_cpu_features s2 \<noteq> UNDEFINED"
    and "g_blake3_cpu_features s1 AND NOT SSSE3 = g_blake3_cpu_features s2 AND NOT SSSE3"
    and "events s1 = events s2"
  shows "(fst (cpu_probe b h) AND SSSE3 \<noteq> 0) = bit (ecx (cpuid h 1)) 9 \<and>
    g_blake3_cpu_features (snd (blake3_get_cpu_features b h initial_state)) =
      fst (cpu_probe b h) \<and>
    fst (blake3_compress_in_place b h K cv block block_len counter flags s1) =
      fst (blake3_compress_in_place b h K cv block block_len counter flags s2) \<and>
    events (snd (blake3_compress_in_place b h K cv block block_len counter flags s1)) =
      events (snd (blake3_compress_in_place b h K cv block block_len counter flags s2)) \<and>
    fst (blake3_compress_xof b h K cv block block_len counter flags s1) =
      fst (blake3_compress_xof b h K cv block block_len counter flags s2) \<and>
    events (snd (blake3_compress_xof b h K cv block block_len counter flags s1)) =
      events (snd (blake3_compress_xof b h K cv block block_len counter flags s2)) \<and>
    fst (blake3_xof_many b h K cv block block_len counter flags out n s1) =
      fst (blake3_xof_many b h K cv block block_len counter flags out n s2) \<and>
    events (snd (blake3_xof_many b h K cv block block_len counter flags out n s1)) =
      events (snd (blake3_xof_many b h K cv block block_len counter flags out n s2)) \<and>
    fst (blake3_hash_many b h K inputs num_inputs blocks key counter increment_counter flags
           flags_start flags_end out s1) =
      fst (blake3_hash_many b h K inputs num_inputs blocks key counter increment_counter flags
             flags_start flags_end out s2) \<and>
    events (snd (blake3_hash_many b h K inputs num_inputs blocks key counter
              increment_counter flags flags_start flags_end out s1)) =
      events (snd (blake3_hash_many b h K inputs num_inputs blocks key counter
                increment_counter flags flags_start flags_end out s2)) \<and>
    fst (blake3_simd_degree b h s1) = fst (blake3_simd_degree b h s2)"
proof -
  let ?f1 = "capability_set b h s1" and ?f2 = "capability_set b h s2"
  have differ: "?f1 AND NOT SSSE3 = ?f2 AND NOT SSSE3"
    using assms(3)
    by (cases "IS_X86 b")
      (simp_all only: capability_set_filled [OF assms(1)] capability_set_filled [OF assms(2)]
        if_True if_False)
  note chains = chains_ignore_ssse3 [OF differ] has_ignores_ssse3(5) [OF differ]
  have new: "new_events s1 (consulted b h s1) = new_events s2 (consulted b h s2)"
    using assms(1,2)
    by (simp add: new_eventsI [OF consulted_events])
  have detected: "(fst (cpu_probe b h) AND SSSE3 \<noteq> 0) = bit (ecx (cpuid h 1)) 9"
    by (rule cpu_probe_ssse3)
  have stored: "g_blake3_cpu_features (snd (blake3_get_cpu_features b h initial_state)) =
      fst (cpu_probe b h)"
    by (simp add: get_cpu_features_miss initial_state_def)
  have cip1: "fst (blake3_compress_in_place b h K cv block block_len counter flags s1) =
      fst (blake3_compress_in_place b h K cv block block_len counter flags s2)"
    by (simp add: compress_in_place_chain chains)
  have cip2: "events (snd (blake3_compress_in_place b h K cv block block_len counter flags s1)) =
      events (snd (blake3_compress_in_place b h K cv block block_len counter flags s2))"
    using assms(4) by (simp add: events_compress_in_place chains new)
  have cxof1: "fst (blake3_compress_xof b h K cv block block_len counter flags s1) =
      fst (blake3_compress_xof b h K cv block block_len counter flags s2)"
    by (simp add: compress_xof_chain chains)
  have cxof2: "events (snd (blake3_compress_xof b h K cv block block_len counter flags s1)) =
      events (snd (blake3_compress_xof b h K cv block block_len counter flags s2))"
    using assms(4) by (simp add: events_compress_xof chains new)
  have many1: "fst (blake3_xof_many b h K cv block block_len counter flags out n s1) =
      fst (blake3_xof_many b h K cv block block_len counter flags out n s2)"
    by (simp add: xof_many_out chains)
  have many2: "events (snd (blake3_xof_many b h K cv block block_len counter flags out n s1)) =
      events (snd (blake3_xof_many b h K cv block block_len counter flags out n s2))"
    using assms(4) by (simp add: events_xof_many chains new)
  have hm1: "fst (blake3_hash_many b h K inputs num_inputs blocks key counter increment_counter
           flags flags_start flags_end out s1) =
      fst (blake3_hash_many b h K inputs num_inputs blocks key counter increment_counter flags
             flags_start flags_end out s2)"
    by (simp add: hash_many_chain chains)
  have hm2: "events (snd (blake3_hash_many b h K inputs num_inputs blocks key counter
              increment_counter flags flags_start flags_end out s1)) =
      events (snd (blake3_hash_many b h K inputs num_inputs blocks key counter
                increment_counter flags flags_start flags_end out s2))"
    using assms(4) by (simp add: events_hash_many chains new)
  have sd: "fst (blake3_simd_degree b h s1) = fst (blake3_simd_degree b h s2)"
    by (simp add: simd_degree_chain chains)
  show ?thesis
    by (intro conjI) (rule detected stored cip1 cip2 cxof1 cxof2 many1 many2 hm1 hm2 sd)+
qed

theorem ssse3_not_consulted_witness:
  "g_blake3_cpu_features (cached (SSE41 OR SSSE3)) \<noteq> UNDEFINED \<and>
   g_blake3_cpu_features (cached SSE41) \<noteq> UNDEFINED \<and>
   (SSE41 OR SSSE3) AND NOT SSSE3 = SSE41 AND NOT SSSE3 \<and>
   fst (blake3_simd_degree unix_x64 avx512_cpu (cached (SSE41 OR SSSE3))) = 4 \<and>
   fst (blake3_simd_degree unix_x64 avx512_cpu (cached SSE41)) = 4 \<and>
   events (snd (blake3_compress_in_place unix_x64 avx512_cpu example_kernels [] [] 64 0 0
     (cached (SSE41 OR SSSE3)))) = [Load, Call compress_in_place sse41] \<and>
   events (snd (blake3_compress_in_place unix_x64 avx512_cpu example_kernels [] [] 64 0 0
     (cached SSE41))) = [Load, Call compress_in_place sse41]"
proof -
  have a: "g_blake3_cpu_features (cached (SSE41 OR SSSE3)) \<noteq> UNDEFINED"
    "g_blake3_cpu_features (cached SSE41) \<noteq> UNDEFINED"
    by (simp_all add: cached_def feature_defs)
  have b: "g_blake3_cpu_features (cached (SSE41 OR SSSE3)) AND NOT SSSE3 =
      g_blake3_cpu_features (cached SSE41) AND NOT SSSE3"
    by (simp add: cached_def feature_defs)
  have c: "events (cached (SSE41 OR SSSE3)) = events (cached SSE41)"
    by (simp add: cached_def)
  show ?thesis
    using a b
      ssse3_not_consulted [OF a b c, of unix_x64 avx512_cpu example_kernels "[]" "[]" 64 0 0
        "\<lambda>a. 0" 1 "[]" 0 0 "[]" False 0 0]
    by (simp add: operation_defs example_defs feature_defs chain_defs)
qed


end
